theory Spec2Isabelle
  imports Complex_Main "HOL-Library.Sublist"
begin

section \<open>Data model (types.ts)\<close>

datatype Sender = user | ai

text \<open>
  Interface \<open>Message\<close>. The fields are prefixed with \<open>m_\<close> (\<open>id\<close> and \<open>text\<close> are
  taken in Isabelle). An optional field that is absent or \<open>undefined\<close> is \<open>None\<close>.
\<close>

record Message =
  m_id :: int
  m_text :: string
  m_sender :: Sender
  m_timestamp :: string
  m_image :: "string option"
  m_isError :: "bool option"

record UserPreferences =
  name :: string
  communicationStyle :: string

text \<open>
  Interface \<open>LocationData\<close>. The coordinates are only carried along, never computed with.
\<close>

record LocationData =
  latitude :: real
  longitude :: real
  city :: "string option"
  l_error :: "string option"

section \<open>Values crossing the boundary of the component\<close>

text \<open>The parameter \<open>imageBase64?: string | null\<close> of \<open>handleSend\<close>.\<close>

datatype image_arg = Undefined | Null | Base64 string

text \<open>The arguments of one call of \<open>getAiResponse\<close> (line 48).\<close>

record gateway_call =
  g_text :: string
  g_imageBase64 :: image_arg
  g_recentHistory :: "Message list"
  g_preferences :: UserPreferences
  g_location :: "LocationData option"

text \<open>
  What the promise of \<open>getAiResponse\<close> settles to: the response text, or a thrown value,
  which is an \<open>Error\<close> object with its message or something else
  (\<open>err instanceof Error\<close>, line 58).
\<close>

datatype thrown = Error string | NotAnError

datatype outcome = Fulfilled string | Rejected thrown

section \<open>The state of the App component\<close>

text \<open>
  One field for each state cell of \<open>App\<close> (lines 13 to 27). \<open>messages\<close> and
  \<open>preferences\<close> come from \<open>useLocalStorage\<close>, \<open>location\<close> and \<open>locationError\<close> from
  \<open>useLocation\<close>. \<open>inflight\<close> is not a cell of the source: it lists the calls of
  \<open>getAiResponse\<close> whose promise has not settled yet, oldest first.
\<close>

record App =
  messages :: "Message list"
  preferences :: UserPreferences
  isLoading :: bool
  isSettingsOpen :: bool
  error :: "string option"
  location :: "LocationData option"
  locationError :: "string option"
  isLocationBannerDismissed :: bool
  showLocationInstructions :: bool
  inflight :: "gateway_call list"

text \<open>
  The state at mount with empty storage: the defaults of lines 13 to 27, no location
  result yet.
\<close>

definition fresh_session :: App where
  "fresh_session =
     \<lparr>messages = [],
      preferences = \<lparr>name = ''User'', communicationStyle = ''friendly and helpful''\<rparr>,
      isLoading = False,
      isSettingsOpen = False,
      error = None,
      location = None,
      locationError = None,
      isLocationBannerDismissed = False,
      showLocationInstructions = False,
      inflight = []\<rparr>"

section \<open>Library functions of the host language\<close>

text \<open>\<open>xs.slice(-n)\<close>: the last \<open>n\<close> elements, all of them when there are fewer.\<close>

definition slice_last :: "nat \<Rightarrow> 'a list \<Rightarrow> 'a list" where
  "slice_last n xs = drop (length xs - n) xs"

text \<open>\<open>s.includes(sub)\<close>: \<open>sub\<close> occurs in \<open>s\<close> as a contiguous run.\<close>

fun str_includes :: "string \<Rightarrow> string \<Rightarrow> bool" where
  "str_includes [] sub = (sub = [])"
| "str_includes (c # cs) sub = (prefix sub (c # cs) \<or> str_includes cs sub)"

text \<open>\<open>imageBase64 ?? undefined\<close> (line 41): only \<open>null\<close> and \<open>undefined\<close> are replaced.\<close>

fun nullish_undefined :: "image_arg \<Rightarrow> string option" where
  "nullish_undefined (Base64 b) = Some b"
| "nullish_undefined Null = None"
| "nullish_undefined Undefined = None"

section \<open>The handlers of App\<close>

text \<open>
  Modelled from the spec: the setter returned by \<open>useLocalStorage\<close> (hooks/useLocalStorage
  is not among the sources). Called with a function, it applies the function to the
  current list, so that \<open>addMessage\<close> (lines 30 to 32) appends.
\<close>

definition setMessages :: "(Message list \<Rightarrow> Message list) \<Rightarrow> App \<Rightarrow> App" where
  "setMessages f s = s\<lparr>messages := f (messages s)\<rparr>"

definition addMessage :: "Message \<Rightarrow> App \<Rightarrow> App" where
  "addMessage message s = setMessages (\<lambda>prev. prev @ [message]) s"

text \<open>
  What a \<open>handleSend\<close> callback has closed over: the \<open>messages\<close>, \<open>preferences\<close> and
  \<open>location\<close> of the render that created it (\<open>useCallback\<close> with the dependencies of
  line 71). \<open>render s\<close> is what a render in state \<open>s\<close> gives a callback.
\<close>

record closure =
  c_messages :: "Message list"
  c_preferences :: UserPreferences
  c_location :: "LocationData option"

definition render :: "App \<Rightarrow> closure" where
  "render s =
     \<lparr>c_messages = messages s, c_preferences = preferences s, c_location = location s\<rparr>"

text \<open>
  \<open>handleSend\<close>, lines 35 to 48: what runs up to the \<open>await\<close>. \<open>now\<close> is the value of
  \<open>Date.now()\<close> and \<open>stamp\<close> that of \<open>new Date().toISOString()\<close>. The callback writes
  to the current state \<open>s\<close> (the update of \<open>addMessage\<close> applies to the latest list), but
  the \<open>messages\<close>, \<open>preferences\<close> and \<open>location\<close> it reads on lines 47 and 48 are those
  of its closure \<open>c\<close>, which are older than \<open>s\<close> when the state has changed since the
  render that created the callback.
\<close>

definition handleSend_call ::
  "closure \<Rightarrow> string \<Rightarrow> image_arg \<Rightarrow> int \<Rightarrow> string \<Rightarrow> App \<Rightarrow> App" where
  "handleSend_call c txt imageBase64 now stamp s =
     (let s1 = s\<lparr>error := None\<rparr>;
          userMessage = \<lparr>m_id = now, m_text = txt, m_sender = user, m_timestamp = stamp,
                         m_image = nullish_undefined imageBase64, m_isError = None\<rparr>;
          s2 = addMessage userMessage s1;
          s3 = s2\<lparr>isLoading := True\<rparr>;
          recentHistory = slice_last 5 (c_messages c);
          call = \<lparr>g_text = txt, g_imageBase64 = imageBase64,
                  g_recentHistory = recentHistory,
                  g_preferences = c_preferences c, g_location = c_location c\<rparr>
      in s3\<lparr>inflight := inflight s3 @ [call]\<rparr>)"

text \<open>
  \<open>handleSend\<close>, lines 49 to 70: what runs once the promise has settled, with the clock
  read again.
\<close>

definition handleSend_resume :: "outcome \<Rightarrow> int \<Rightarrow> string \<Rightarrow> App \<Rightarrow> App" where
  "handleSend_resume res now stamp s =
     (let s1 =
        (case res of
           Fulfilled aiResponseText \<Rightarrow>
             addMessage \<lparr>m_id = now + 1, m_text = aiResponseText, m_sender = ai,
                         m_timestamp = stamp, m_image = None, m_isError = None\<rparr> s
         | Rejected err \<Rightarrow>
             (let errorMessage =
                    (case err of Error msg \<Rightarrow> msg
                     | NotAnError \<Rightarrow> ''An unknown error occurred.'');
                  s' = s\<lparr>error := Some (''Failed to get response from AI: '' @ errorMessage)\<rparr>
              in addMessage
                   \<lparr>m_id = now + 1,
                    m_text = ''Sorry, I encountered an error. Please try again. (''
                             @ errorMessage @ '')'',
                    m_sender = ai, m_timestamp = stamp, m_image = None,
                    m_isError = Some True\<rparr> s'))
      in s1\<lparr>isLoading := False\<rparr>)"

text \<open>\<open>clearHistory\<close>, lines 73 to 75.\<close>

definition clearHistory :: "App \<Rightarrow> App" where
  "clearHistory s = setMessages (\<lambda>_. []) s"

text \<open>
  \<open>showLocationBanner\<close>, line 77. \<open>locationError?.includes('denied')\<close> is \<open>undefined\<close>
  (here \<open>None\<close>) when there is no \<open>locationError\<close>, and \<open>undefined && x\<close> is \<open>undefined\<close>.
  The banner is rendered when the value is truthy (line 88).
\<close>

definition showLocationBanner :: "App \<Rightarrow> bool option" where
  "showLocationBanner s =
     (case locationError s of
        None \<Rightarrow> None
      | Some e \<Rightarrow> Some (str_includes e ''denied'' \<and> \<not> isLocationBannerDismissed s))"

definition banner_rendered :: "App \<Rightarrow> bool" where
  "banner_rendered s = (showLocationBanner s = Some True)"

text \<open>The two buttons of the banner, lines 97 and 102.\<close>

definition toggleInstructions :: "App \<Rightarrow> App" where
  "toggleInstructions s = s\<lparr>showLocationInstructions := \<not> showLocationInstructions s\<rparr>"

definition dismiss :: "App \<Rightarrow> App" where
  "dismiss s = s\<lparr>isLocationBannerDismissed := True\<rparr>"

section \<open>Executions\<close>

text \<open>
  Everything that can happen to the component: a call of a \<open>handleSend\<close> callback, the
  settling of the \<open>k\<close>-th pending gateway call, the handlers wired in the JSX, and a new
  result of \<open>useLocation\<close>. A send names the closure of the callback that is called: that
  of the latest render, \<open>render s\<close>, when the component has rendered since the state
  last changed, an older one otherwise. Any closure is admitted here, and the two
  buttons of the banner, which exist only while the banner is rendered, can fire in any
  state; both only add executions.
\<close>

datatype event =
    Send closure string image_arg int string
  | Settle nat outcome int string
  | ClearHistory
  | ToggleInstructions
  | DismissBanner
  | OpenSettings
  | CloseSettings
  | SavePreferences UserPreferences
  | LocationResult "LocationData option" "string option"

definition remove_nth :: "nat \<Rightarrow> 'a list \<Rightarrow> 'a list" where
  "remove_nth k xs = take k xs @ drop (Suc k) xs"

text \<open>\<open>None\<close>: the event cannot happen (no such pending call).\<close>

fun step :: "App \<Rightarrow> event \<Rightarrow> App option" where
  "step s (Send c txt img now stamp) = Some (handleSend_call c txt img now stamp s)"
| "step s (Settle k res now stamp) =
     (if k < length (inflight s)
      then Some (handleSend_resume res now stamp (s\<lparr>inflight := remove_nth k (inflight s)\<rparr>))
      else None)"
| "step s ClearHistory = Some (clearHistory s)"
| "step s ToggleInstructions = Some (toggleInstructions s)"
| "step s DismissBanner = Some (dismiss s)"
| "step s OpenSettings = Some (s\<lparr>isSettingsOpen := True\<rparr>)"
| "step s CloseSettings = Some (s\<lparr>isSettingsOpen := False\<rparr>)"
| "step s (SavePreferences p) = Some (s\<lparr>preferences := p\<rparr>)"
| "step s (LocationResult loc err) = Some (s\<lparr>location := loc, locationError := err\<rparr>)"

fun run :: "App \<Rightarrow> event list \<Rightarrow> App option" where
  "run s [] = Some s"
| "run s (e # es) = (case step s e of None \<Rightarrow> None | Some s' \<Rightarrow> run s' es)"


section \<open>Notions used to state the properties\<close>

text \<open>The message that lines 50 to 67 build for each way the gateway call can settle.\<close>

fun reply :: "outcome \<Rightarrow> int \<Rightarrow> string \<Rightarrow> Message" where
  "reply (Fulfilled t) now stamp =
     \<lparr>m_id = now + 1, m_text = t, m_sender = ai, m_timestamp = stamp, m_image = None,
      m_isError = None\<rparr>"
| "reply (Rejected (Error msg)) now stamp =
     \<lparr>m_id = now + 1,
      m_text = ''Sorry, I encountered an error. Please try again. ('' @ msg @ '')'',
      m_sender = ai, m_timestamp = stamp, m_image = None, m_isError = Some True\<rparr>"
| "reply (Rejected NotAnError) now stamp =
     \<lparr>m_id = now + 1,
      m_text = ''Sorry, I encountered an error. Please try again. (An unknown error occurred.)'',
      m_sender = ai, m_timestamp = stamp, m_image = None, m_isError = Some True\<rparr>"

text \<open>
  An execution in which \<open>handleSend\<close> is only ever called while \<open>isLoading\<close> is false:
  what an input component that honours the \<open>isLoading\<close> it is given (line 127) allows.
\<close>

fun is_send :: "event \<Rightarrow> bool" where
  "is_send (Send c txt img now stamp) = True"
| "is_send e = False"

fun sends_only_when_idle :: "App \<Rightarrow> event list \<Rightarrow> bool" where
  "sends_only_when_idle s [] = True"
| "sends_only_when_idle s (e # es) =
     ((is_send e \<longrightarrow> \<not> isLoading s) \<and>
      (case step s e of None \<Rightarrow> True | Some s' \<Rightarrow> sends_only_when_idle s' es))"

text \<open>
  One send together with the settling of its own gateway call: the closure, arguments
  and clock readings of the call, then the outcome and the clock readings at the settling. A list
  of them, run one after the other, is a sequence of sends each issued after the
  previous one has resolved.
\<close>

type_synonym exchange =
  "(closure \<times> string \<times> image_arg \<times> int \<times> string) \<times> (outcome \<times> int \<times> string)"

fun exchange_events :: "exchange \<Rightarrow> event list" where
  "exchange_events ((c, txt, img, now, stamp), (res, now', stamp')) =
     [Send c txt img now stamp, Settle 0 res now' stamp']"

definition sequential :: "exchange list \<Rightarrow> event list" where
  "sequential xs = concat (map exchange_events xs)"

text \<open>The two messages one such exchange appends: lines 36 to 42, then \<open>reply\<close>.\<close>

fun exchange_messages :: "exchange \<Rightarrow> Message list" where
  "exchange_messages ((c, txt, img, now, stamp), (res, now', stamp')) =
     [\<lparr>m_id = now, m_text = txt, m_sender = user, m_timestamp = stamp,
       m_image = nullish_undefined img, m_isError = None\<rparr>,
      reply res now' stamp']"

text \<open>
  The loading flag agrees with the pending calls: one call pending while loading, none
  otherwise.
\<close>

definition loading_matches_inflight :: "App \<Rightarrow> bool" where
  "loading_matches_inflight s =
     (if isLoading s then length (inflight s) = 1 else inflight s = [])"

text \<open>A message carries an image only if it was sent by the user.\<close>

definition image_only_from_user :: "Message \<Rightarrow> bool" where
  "image_only_from_user m = (m_image m \<noteq> None \<longrightarrow> m_sender m = user)"

section \<open>Basic facts about the handlers\<close>

lemma str_includes_iff: "str_includes s sub \<longleftrightarrow> (\<exists>p q. s = p @ sub @ q)"
proof (induction s)
  case Nil
  then show ?case by auto
next
  case (Cons c cs)
  show ?case
  proof
    assume "str_includes (c # cs) sub"
    then consider "prefix sub (c # cs)" | "str_includes cs sub" by auto
    then show "\<exists>p q. c # cs = p @ sub @ q"
    proof cases
      case 1
      then obtain q where "c # cs = sub @ q" by (auto simp: prefix_def)
      then have "c # cs = [] @ sub @ q" by simp
      then show ?thesis by blast
    next
      case 2
      with Cons.IH obtain p q where "cs = p @ sub @ q" by blast
      then have "c # cs = (c # p) @ sub @ q" by simp
      then show ?thesis by blast
    qed
  next
    assume "\<exists>p q. c # cs = p @ sub @ q"
    then obtain p q where pq: "c # cs = p @ sub @ q" by blast
    show "str_includes (c # cs) sub"
    proof (cases p)
      case Nil
      with pq have "prefix sub (c # cs)" by (simp add: prefix_def)
      then show ?thesis by simp
    next
      case (Cons a p')
      with pq have "cs = p' @ sub @ q" by simp
      with Cons.IH have "str_includes cs sub" by blast
      then show ?thesis by simp
    qed
  qed
qed

lemma messages_handleSend_call:
  "messages (handleSend_call c txt img now stamp s) =
     messages s @ [\<lparr>m_id = now, m_text = txt, m_sender = user, m_timestamp = stamp,
                    m_image = nullish_undefined img, m_isError = None\<rparr>]"
  by (simp add: handleSend_call_def addMessage_def setMessages_def Let_def)

lemma inflight_handleSend_call:
  "inflight (handleSend_call c txt img now stamp s) =
     inflight s @ [\<lparr>g_text = txt, g_imageBase64 = img,
                    g_recentHistory = slice_last 5 (c_messages c),
                    g_preferences = c_preferences c, g_location = c_location c\<rparr>]"
  by (simp add: handleSend_call_def addMessage_def setMessages_def Let_def)

lemma flags_handleSend_call:
  "isLoading (handleSend_call c txt img now stamp s) = True"
  "error (handleSend_call c txt img now stamp s) = None"
  "preferences (handleSend_call c txt img now stamp s) = preferences s"
  "location (handleSend_call c txt img now stamp s) = location s"
  "locationError (handleSend_call c txt img now stamp s) = locationError s"
  "isLocationBannerDismissed (handleSend_call c txt img now stamp s) = isLocationBannerDismissed s"
  by (simp_all add: handleSend_call_def addMessage_def setMessages_def Let_def)

lemma messages_handleSend_resume:
  "messages (handleSend_resume res now stamp s) = messages s @ [reply res now stamp]"
  by (cases "(res, now, stamp)" rule: reply.cases)
     (simp_all add: handleSend_resume_def addMessage_def setMessages_def Let_def)

lemma flags_handleSend_resume:
  "isLoading (handleSend_resume res now stamp s) = False"
  "inflight (handleSend_resume res now stamp s) = inflight s"
  "preferences (handleSend_resume res now stamp s) = preferences s"
  "location (handleSend_resume res now stamp s) = location s"
  "locationError (handleSend_resume res now stamp s) = locationError s"
  "isLocationBannerDismissed (handleSend_resume res now stamp s) = isLocationBannerDismissed s"
  by (simp_all add: handleSend_resume_def addMessage_def setMessages_def Let_def
        split: outcome.split thrown.split)

lemma error_handleSend_resume:
  "error (handleSend_resume (Fulfilled t) now stamp s) = error s"
  "error (handleSend_resume (Rejected (Error msg)) now stamp s) =
     Some (''Failed to get response from AI: '' @ msg)"
  "error (handleSend_resume (Rejected NotAnError) now stamp s) =
     Some ''Failed to get response from AI: An unknown error occurred.''"
  by (simp_all add: handleSend_resume_def addMessage_def setMessages_def Let_def)

lemma clearHistory_fields:
  "messages (clearHistory s) = []"
  "preferences (clearHistory s) = preferences s"
  "location (clearHistory s) = location s"
  "locationError (clearHistory s) = locationError s"
  "error (clearHistory s) = error s"
  "isLoading (clearHistory s) = isLoading s"
  "inflight (clearHistory s) = inflight s"
  "isLocationBannerDismissed (clearHistory s) = isLocationBannerDismissed s"
  by (simp_all add: clearHistory_def setMessages_def)

section \<open>The context slice of a send\<close>

text \<open>
  Claim C3, as the code has it. For every call of \<open>handleSend\<close>, the \<open>recentHistory\<close>
  handed to the gateway is the last five messages (all of them when there are fewer) of
  the list the callback has closed over, the list of the render that created it. The
  user message of the call is appended to the current list and does not enter the
  slice. When the closed-over list is the current one, as it is for the callback of a
  render in the current state, the slice is the last five messages of the list as it was
  before the call appended its own user message.
\<close>

theorem C3_recentHistory_from_closure:
  "g_recentHistory (last (inflight (handleSend_call c txt img now stamp s)))
     = drop (length (c_messages c) - 5) (c_messages c)
   \<and> length (g_recentHistory (last (inflight (handleSend_call c txt img now stamp s))))
     = min 5 (length (c_messages c))
   \<and> messages (handleSend_call c txt img now stamp s)
     = messages s @ [\<lparr>m_id = now, m_text = txt, m_sender = user, m_timestamp = stamp,
                      m_image = nullish_undefined img, m_isError = None\<rparr>]
   \<and> (c_messages c = messages s \<longrightarrow>
        g_recentHistory (last (inflight (handleSend_call c txt img now stamp s)))
          = drop (length (messages s) - 5) (messages s)
      \<and> g_recentHistory (last (inflight (handleSend_call c txt img now stamp s)))
          = slice_last 5 (butlast (messages (handleSend_call c txt img now stamp s))))
   \<and> g_recentHistory (last (inflight (handleSend_call (render s) txt img now stamp s)))
     = drop (length (messages s) - 5) (messages s)"
  by (simp add: inflight_handleSend_call messages_handleSend_call slice_last_def render_def)

theorem C3_recentHistory_from_closure_witness:
  "c_messages
     (render (fresh_session\<lparr>messages :=
        map (\<lambda>n. \<lparr>m_id = n, m_text = ''m'', m_sender = user, m_timestamp = ''t'',
                    m_image = None, m_isError = None\<rparr>) [1, 2, 3, 4, 5, 6]\<rparr>))
     = messages (fresh_session\<lparr>messages :=
        map (\<lambda>n. \<lparr>m_id = n, m_text = ''m'', m_sender = user, m_timestamp = ''t'',
                    m_image = None, m_isError = None\<rparr>) [1, 2, 3, 4, 5, 6]\<rparr>)
   \<and> g_recentHistory (last (inflight
        (handleSend_call
          (render (fresh_session\<lparr>messages :=
             map (\<lambda>n. \<lparr>m_id = n, m_text = ''m'', m_sender = user, m_timestamp = ''t'',
                         m_image = None, m_isError = None\<rparr>) [1, 2, 3, 4, 5, 6]\<rparr>))
          ''new'' Null 7 ''t''
          (fresh_session\<lparr>messages :=
             map (\<lambda>n. \<lparr>m_id = n, m_text = ''m'', m_sender = user, m_timestamp = ''t'',
                         m_image = None, m_isError = None\<rparr>) [1, 2, 3, 4, 5, 6]\<rparr>))))
     = map (\<lambda>n. \<lparr>m_id = n, m_text = ''m'', m_sender = user, m_timestamp = ''t'',
                  m_image = None, m_isError = None\<rparr>) [2, 3, 4, 5, 6]"
proof -
  let ?s = "fresh_session\<lparr>messages :=
        map (\<lambda>n. \<lparr>m_id = n, m_text = ''m'', m_sender = user, m_timestamp = ''t'',
                    m_image = None, m_isError = None\<rparr>) [1, 2, 3, 4, 5, 6]\<rparr>"
  have h: "c_messages (render ?s) = messages ?s" by (simp add: render_def)
  from C3_recentHistory_from_closure [of "render ?s" "''new''" Null 7 "''t''" ?s] h
  have "g_recentHistory (last (inflight (handleSend_call (render ?s) ''new'' Null 7 ''t'' ?s)))
          = drop (length (messages ?s) - 5) (messages ?s)"
    by blast
  with h show ?thesis by simp
qed

text \<open>
  A callback called a second time before the component has rendered again still has
  the empty list of the first render: the gateway gets no history, although the list
  held one message before the second call.
\<close>

theorem C3_counterexample:
  "messages (handleSend_call (render fresh_session) ''first'' Null 100 ''t0'' fresh_session)
     = [\<lparr>m_id = 100, m_text = ''first'', m_sender = user, m_timestamp = ''t0'',
         m_image = None, m_isError = None\<rparr>]
   \<and> slice_last 5
        (messages (handleSend_call (render fresh_session) ''first'' Null 100 ''t0'' fresh_session))
     = [\<lparr>m_id = 100, m_text = ''first'', m_sender = user, m_timestamp = ''t0'',
         m_image = None, m_isError = None\<rparr>]
   \<and> g_recentHistory (last (inflight
        (handleSend_call (render fresh_session) ''second'' Null 150 ''t1''
          (handleSend_call (render fresh_session) ''first'' Null 100 ''t0'' fresh_session))))
     = []
   \<and> messages
        (handleSend_call (render fresh_session) ''second'' Null 150 ''t1''
          (handleSend_call (render fresh_session) ''first'' Null 100 ''t0'' fresh_session))
     = [\<lparr>m_id = 100, m_text = ''first'', m_sender = user, m_timestamp = ''t0'',
         m_image = None, m_isError = None\<rparr>,
        \<lparr>m_id = 150, m_text = ''second'', m_sender = user, m_timestamp = ''t1'',
         m_image = None, m_isError = None\<rparr>]"
  by (simp add: inflight_handleSend_call messages_handleSend_call slice_last_def render_def
        fresh_session_def)

section \<open>A failing gateway call\<close>

text \<open>
  Claim C4. When the gateway call fails with an error whose message is \<open>msg\<close>, the
  controller appends one message with sender \<open>ai\<close>, \<open>isError = true\<close> and the text
  "Sorry, I encountered an error. Please try again. (msg)", and sets the error field to
  "Failed to get response from AI: msg".
\<close>

theorem C4_failure_message_and_error:
  "messages (handleSend_resume (Rejected (Error msg)) now stamp s)
     = messages s @
       [\<lparr>m_id = now + 1,
         m_text = ''Sorry, I encountered an error. Please try again. ('' @ msg @ '')'',
         m_sender = ai, m_timestamp = stamp, m_image = None, m_isError = Some True\<rparr>]
   \<and> error (handleSend_resume (Rejected (Error msg)) now stamp s)
     = Some (''Failed to get response from AI: '' @ msg)"
  by (simp add: messages_handleSend_resume error_handleSend_resume)

section \<open>Clearing the history\<close>

text \<open>
  Claim C7. Whatever the state, also while a gateway call is pending, \<open>clearHistory\<close> can
  run; it leaves the message list empty and changes nothing else: in particular the
  preferences, the location and the location error are what they were.
\<close>

theorem C7_clearHistory_frame:
  "step s ClearHistory = Some (clearHistory s)
   \<and> messages (clearHistory s) = []
   \<and> preferences (clearHistory s) = preferences s
   \<and> location (clearHistory s) = location s
   \<and> locationError (clearHistory s) = locationError s
   \<and> clearHistory s = s\<lparr>messages := []\<rparr>"
  by (simp add: clearHistory_def setMessages_def)

text \<open>
  Claim C9. \<open>clearHistory\<close> does not touch the error field: the notice left by a failed
  send is still there after the history has been cleared, and is gone only once the
  next send starts.
\<close>

theorem C9_clearHistory_keeps_error:
  "error (clearHistory s) = error s
   \<and> error (clearHistory (handleSend_resume (Rejected (Error msg)) now stamp s))
     = Some (''Failed to get response from AI: '' @ msg)
   \<and> error (handleSend_call c txt img now' stamp' (clearHistory s)) = None"
  by (simp add: clearHistory_fields error_handleSend_resume flags_handleSend_call)

section \<open>The loading flag and the error field across a send\<close>

text \<open>
  Claim C8. A send first clears the error field (and raises the loading flag); when its
  gateway call settles, whatever the outcome, the loading flag is false again. So a send
  followed by the settling of its call always ends with the loading flag false.
\<close>

theorem C8_send_clears_error_and_returns_to_idle:
  "error (handleSend_call c txt img now stamp s) = None
   \<and> isLoading (handleSend_call c txt img now stamp s)
   \<and> \<not> isLoading (handleSend_resume res now' stamp' s2)
   \<and> (\<exists>s'. run s [Send c txt img now stamp, Settle (length (inflight s)) res now' stamp']
            = Some s' \<and> \<not> isLoading s')"
  by (simp add: flags_handleSend_call flags_handleSend_resume inflight_handleSend_call)


section \<open>The location banner\<close>

lemma dismissed_step:
  assumes "isLocationBannerDismissed s" and "step s e = Some s'"
  shows "isLocationBannerDismissed s'"
  using assms
  by (cases e)
     (auto simp: flags_handleSend_call flags_handleSend_resume clearHistory_fields
        toggleInstructions_def dismiss_def split: if_splits)

lemma dismissed_run:
  "isLocationBannerDismissed s \<Longrightarrow> run s es = Some s' \<Longrightarrow> isLocationBannerDismissed s'"
proof (induction es arbitrary: s)
  case Nil
  then show ?case by simp
next
  case (Cons e es)
  from Cons.prems(2) obtain s1 where s1: "step s e = Some s1" and r: "run s1 es = Some s'"
    by (auto split: option.splits)
  from dismissed_step [OF Cons.prems(1) s1] have "isLocationBannerDismissed s1" .
  from Cons.IH [OF this r] show ?case .
qed

lemma banner_rendered_iff:
  "banner_rendered s \<longleftrightarrow>
     (\<exists>e. locationError s = Some e \<and> str_includes e ''denied'') \<and> \<not> isLocationBannerDismissed s"
  by (auto simp: banner_rendered_def showLocationBanner_def split: option.splits)

text \<open>
  Claim C6. The banner is rendered exactly when there is a location error in which
  "denied" occurs and the banner has not been dismissed. After \<open>dismiss\<close> it is not
  rendered in any state the component can reach, whatever location errors arrive
  later. Toggling the instructions does not change whether it is rendered.
\<close>

theorem C6_banner_visibility:
  "(banner_rendered s \<longleftrightarrow>
      (\<exists>e p q. locationError s = Some e \<and> e = p @ ''denied'' @ q)
      \<and> \<not> isLocationBannerDismissed s)
   \<and> (\<forall>es s'. run (dismiss s) es = Some s' \<longrightarrow> \<not> banner_rendered s')
   \<and> banner_rendered (toggleInstructions s) = banner_rendered s"
proof (intro conjI allI impI)
  show "banner_rendered s \<longleftrightarrow>
      (\<exists>e p q. locationError s = Some e \<and> e = p @ ''denied'' @ q)
      \<and> \<not> isLocationBannerDismissed s"
    unfolding banner_rendered_iff str_includes_iff by blast
next
  fix es s'
  assume "run (dismiss s) es = Some s'"
  moreover have "isLocationBannerDismissed (dismiss s)" by (simp add: dismiss_def)
  ultimately have "isLocationBannerDismissed s'" using dismissed_run by blast
  then show "\<not> banner_rendered s'" by (simp add: banner_rendered_iff)
next
  show "banner_rendered (toggleInstructions s) = banner_rendered s"
    by (simp add: banner_rendered_iff toggleInstructions_def)
qed

theorem C6_banner_visibility_witness:
  "banner_rendered (fresh_session\<lparr>locationError := Some ''Location access denied by user.''\<rparr>)
   \<and> \<not> banner_rendered (fresh_session\<lparr>locationError := Some ''Location unavailable.''\<rparr>)
   \<and> run (dismiss (fresh_session\<lparr>locationError := Some ''Location access denied by user.''\<rparr>))
        [LocationResult None (Some ''Location access denied by user.''), ToggleInstructions]
      = Some (fresh_session\<lparr>locationError := Some ''Location access denied by user.'',
                isLocationBannerDismissed := True, showLocationInstructions := True\<rparr>)
   \<and> \<not> banner_rendered
        (fresh_session\<lparr>locationError := Some ''Location access denied by user.'',
           isLocationBannerDismissed := True, showLocationInstructions := True\<rparr>)"
proof -
  let ?s = "fresh_session\<lparr>locationError := Some ''Location access denied by user.''\<rparr>"
  let ?es = "[LocationResult None (Some ''Location access denied by user.''), ToggleInstructions]"
  let ?s' = "fresh_session\<lparr>locationError := Some ''Location access denied by user.'',
                isLocationBannerDismissed := True, showLocationInstructions := True\<rparr>"
  have r: "run (dismiss ?s) ?es = Some ?s'"
    by (simp add: fresh_session_def dismiss_def toggleInstructions_def)
  have a: "banner_rendered ?s"
    by (simp add: banner_rendered_def showLocationBanner_def fresh_session_def)
  have b: "\<not> banner_rendered (fresh_session\<lparr>locationError := Some ''Location unavailable.''\<rparr>)"
    by (simp add: banner_rendered_def showLocationBanner_def fresh_session_def)
  from C6_banner_visibility [of ?s] r have "\<not> banner_rendered ?s'" by blast
  with r a b show ?thesis by blast
qed


section \<open>Images\<close>

lemma image_only_step:
  assumes "list_all image_only_from_user (messages s)" and "step s e = Some s'"
  shows "list_all image_only_from_user (messages s')"
proof (cases e)
  case (Send c t img now stamp)
  with assms show ?thesis
    by (auto simp: messages_handleSend_call image_only_from_user_def)
next
  case (Settle k res now stamp)
  have "image_only_from_user (reply res now stamp)"
    by (cases "(res, now, stamp)" rule: reply.cases) (simp_all add: image_only_from_user_def)
  with Settle assms show ?thesis
    by (auto simp: messages_handleSend_resume split: if_splits)
qed (use assms in \<open>auto simp: clearHistory_fields toggleInstructions_def dismiss_def\<close>)

lemma image_only_run:
  "list_all image_only_from_user (messages s) \<Longrightarrow> run s es = Some s'
     \<Longrightarrow> list_all image_only_from_user (messages s')"
proof (induction es arbitrary: s)
  case Nil
  then show ?case by simp
next
  case (Cons e es)
  from Cons.prems(2) obtain s1 where s1: "step s e = Some s1" and r: "run s1 es = Some s'"
    by (auto split: option.splits)
  from image_only_step [OF Cons.prems(1) s1] Cons.IH r show ?case by blast
qed

text \<open>
  Claim C10. The message appended when a gateway call settles, on success and on
  failure alike, has sender \<open>ai\<close> and no image. The message appended by a send has
  sender \<open>user\<close> and carries an image exactly when the image argument is neither \<open>null\<close>
  nor \<open>undefined\<close>, and then it is that argument. So if no \<open>ai\<close> message of the list has
  an image to begin with, none has one in any state reached later.
\<close>

theorem C10_images_only_on_user_messages:
  "m_sender (last (messages (handleSend_resume res now stamp s))) = ai
   \<and> m_image (last (messages (handleSend_resume res now stamp s))) = None
   \<and> m_sender (last (messages (handleSend_call c txt img now stamp s))) = user
   \<and> (m_image (last (messages (handleSend_call c txt img now stamp s))) \<noteq> None
        \<longleftrightarrow> img \<noteq> Null \<and> img \<noteq> Undefined)
   \<and> (\<forall>b. img = Base64 b \<longrightarrow>
          m_image (last (messages (handleSend_call c txt img now stamp s))) = Some b)
   \<and> (list_all image_only_from_user (messages s) \<and> run s es = Some s'
        \<longrightarrow> list_all image_only_from_user (messages s'))"
proof -
  have "m_sender (reply res now stamp) = ai \<and> m_image (reply res now stamp) = None"
    by (cases "(res, now, stamp)" rule: reply.cases) simp_all
  moreover have "(nullish_undefined img \<noteq> None) = (img \<noteq> Null \<and> img \<noteq> Undefined)"
    by (cases img) simp_all
  ultimately show ?thesis
    using image_only_run [of s es s']
    by (simp add: messages_handleSend_resume messages_handleSend_call)
qed

theorem C10_images_only_on_user_messages_witness:
  "run fresh_session
     [Send (render fresh_session) ''look'' (Base64 ''aGk='') 100 ''t0'',
      Settle 0 (Fulfilled ''nice'') 250 ''t1'',
      Send (render (fresh_session\<lparr>messages :=
          [\<lparr>m_id = 100, m_text = ''look'', m_sender = user, m_timestamp = ''t0'',
             m_image = Some ''aGk='', m_isError = None\<rparr>,
           \<lparr>m_id = 251, m_text = ''nice'', m_sender = ai, m_timestamp = ''t1'',
             m_image = None, m_isError = None\<rparr>]\<rparr>))
        ''more'' Null 300 ''t2'',
      Settle 0 (Rejected (Error ''HTTP 500'')) 420 ''t3'']
   = Some (fresh_session\<lparr>messages :=
       [\<lparr>m_id = 100, m_text = ''look'', m_sender = user, m_timestamp = ''t0'',
          m_image = Some ''aGk='', m_isError = None\<rparr>,
        \<lparr>m_id = 251, m_text = ''nice'', m_sender = ai, m_timestamp = ''t1'',
          m_image = None, m_isError = None\<rparr>,
        \<lparr>m_id = 300, m_text = ''more'', m_sender = user, m_timestamp = ''t2'',
          m_image = None, m_isError = None\<rparr>,
        \<lparr>m_id = 421,
          m_text = ''Sorry, I encountered an error. Please try again. (HTTP 500)'',
          m_sender = ai, m_timestamp = ''t3'', m_image = None, m_isError = Some True\<rparr>],
       error := Some ''Failed to get response from AI: HTTP 500''\<rparr>)
   \<and> list_all image_only_from_user (messages fresh_session)
   \<and> list_all image_only_from_user
       [\<lparr>m_id = 100, m_text = ''look'', m_sender = user, m_timestamp = ''t0'',
          m_image = Some ''aGk='', m_isError = None\<rparr>,
        \<lparr>m_id = 251, m_text = ''nice'', m_sender = ai, m_timestamp = ''t1'',
          m_image = None, m_isError = None\<rparr>,
        \<lparr>m_id = 300, m_text = ''more'', m_sender = user, m_timestamp = ''t2'',
          m_image = None, m_isError = None\<rparr>,
        \<lparr>m_id = 421,
          m_text = ''Sorry, I encountered an error. Please try again. (HTTP 500)'',
          m_sender = ai, m_timestamp = ''t3'', m_image = None, m_isError = Some True\<rparr>]"
proof -
  let ?es = "[Send (render fresh_session) ''look'' (Base64 ''aGk='') 100 ''t0'',
      Settle 0 (Fulfilled ''nice'') 250 ''t1'',
      Send (render (fresh_session\<lparr>messages :=
          [\<lparr>m_id = 100, m_text = ''look'', m_sender = user, m_timestamp = ''t0'',
             m_image = Some ''aGk='', m_isError = None\<rparr>,
           \<lparr>m_id = 251, m_text = ''nice'', m_sender = ai, m_timestamp = ''t1'',
             m_image = None, m_isError = None\<rparr>]\<rparr>))
        ''more'' Null 300 ''t2'',
      Settle 0 (Rejected (Error ''HTTP 500'')) 420 ''t3'']"
  let ?ms = "[\<lparr>m_id = 100, m_text = ''look'', m_sender = user, m_timestamp = ''t0'',
          m_image = Some ''aGk='', m_isError = None\<rparr>,
        \<lparr>m_id = 251, m_text = ''nice'', m_sender = ai, m_timestamp = ''t1'',
          m_image = None, m_isError = None\<rparr>,
        \<lparr>m_id = 300, m_text = ''more'', m_sender = user, m_timestamp = ''t2'',
          m_image = None, m_isError = None\<rparr>,
        \<lparr>m_id = 421,
          m_text = ''Sorry, I encountered an error. Please try again. (HTTP 500)'',
          m_sender = ai, m_timestamp = ''t3'', m_image = None, m_isError = Some True\<rparr>]"
  let ?s' = "fresh_session\<lparr>messages := ?ms,
       error := Some ''Failed to get response from AI: HTTP 500''\<rparr>"
  have r: "run fresh_session ?es = Some ?s'"
    by (simp add: fresh_session_def handleSend_call_def handleSend_resume_def addMessage_def
          setMessages_def slice_last_def remove_nth_def Let_def)
  have i: "list_all image_only_from_user (messages fresh_session)"
    by (simp add: fresh_session_def)
  from C10_images_only_on_user_messages [where s = fresh_session and es = ?es and s' = ?s'] r i
  have "list_all image_only_from_user (messages ?s')" by blast
  then have "list_all image_only_from_user ?ms" by simp
  with r i show ?thesis by blast
qed


section \<open>Gateway calls in flight\<close>

lemma loading_matches_step:
  assumes "loading_matches_inflight s" and "is_send e \<longrightarrow> \<not> isLoading s"
    and "step s e = Some s'"
  shows "loading_matches_inflight s'"
proof (cases e)
  case (Send c t img now stamp)
  with assms show ?thesis
    by (auto simp: loading_matches_inflight_def flags_handleSend_call inflight_handleSend_call)
next
  case (Settle k res now stamp)
  with assms have k: "k < length (inflight s)"
    and s': "s' = handleSend_resume res now stamp (s\<lparr>inflight := remove_nth k (inflight s)\<rparr>)"
    by (auto split: if_splits)
  from k assms(1) have "length (inflight s) = 1" and "k = 0"
    by (auto simp: loading_matches_inflight_def split: if_splits)
  then have "remove_nth k (inflight s) = []"
    by (cases "inflight s") (simp_all add: remove_nth_def)
  with s' show ?thesis
    by (simp add: loading_matches_inflight_def flags_handleSend_resume)
qed (use assms in \<open>auto simp: loading_matches_inflight_def clearHistory_fields
        toggleInstructions_def dismiss_def\<close>)

lemma loading_matches_run:
  "loading_matches_inflight s \<Longrightarrow> sends_only_when_idle s es \<Longrightarrow> run s es = Some s'
     \<Longrightarrow> loading_matches_inflight s'"
proof (induction es arbitrary: s)
  case Nil
  then show ?case by simp
next
  case (Cons e es)
  from Cons.prems(3) obtain s1 where s1: "step s e = Some s1" and r: "run s1 es = Some s'"
    by (auto split: option.splits)
  from Cons.prems(2) s1 have g: "is_send e \<longrightarrow> \<not> isLoading s" and w: "sends_only_when_idle s1 es"
    by simp_all
  from loading_matches_step [OF Cons.prems(1) g s1] have "loading_matches_inflight s1" .
  from Cons.IH [OF this w r] show ?case .
qed

lemma run_take:
  "run s es = Some s' \<Longrightarrow> \<exists>sk. run s (take k es) = Some sk"
proof (induction es arbitrary: s k)
  case Nil
  then show ?case by simp
next
  case (Cons e es)
  then show ?case by (cases k) (auto split: option.splits)
qed

lemma sends_only_when_idle_take:
  "sends_only_when_idle s es \<Longrightarrow> sends_only_when_idle s (take k es)"
proof (induction es arbitrary: s k)
  case Nil
  then show ?case by simp
next
  case (Cons e es)
  then show ?case by (cases k) (auto split: option.splits)
qed

text \<open>
  Claim C1, as the code has it. \<open>handleSend\<close> does not look at the loading flag: called
  in any state, also while a call is pending, it appends its user message and starts
  one more gateway call. The flag is only handed to the input component. In the
  executions where \<open>handleSend\<close> is called only while the flag is false, started with no
  call pending, at most one gateway call is pending after every step, and the flag is
  true exactly while one is.
\<close>

theorem C1_no_guard_in_handleSend:
  "length (inflight (handleSend_call c txt img now stamp s)) = Suc (length (inflight s))
   \<and> length (messages (handleSend_call c txt img now stamp s)) = Suc (length (messages s))
   \<and> (\<not> isLoading s \<and> inflight s = [] \<and> sends_only_when_idle s es \<and> run s es = Some s'
        \<longrightarrow> (\<forall>k. \<exists>sk. run s (take k es) = Some sk
                 \<and> length (inflight sk) \<le> 1 \<and> (isLoading sk \<longleftrightarrow> inflight sk \<noteq> [])))"
proof -
  have "\<exists>sk. run s (take k es) = Some sk
          \<and> length (inflight sk) \<le> 1 \<and> (isLoading sk \<longleftrightarrow> inflight sk \<noteq> [])"
    if a: "\<not> isLoading s" "inflight s = []"
      and g: "sends_only_when_idle s es" and r: "run s es = Some s'" for k
  proof -
    from run_take [OF r, of k] obtain sk where sk: "run s (take k es) = Some sk" by blast
    from a have "loading_matches_inflight s" by (simp add: loading_matches_inflight_def)
    from loading_matches_run [OF this sends_only_when_idle_take [OF g] sk]
    have "length (inflight sk) \<le> 1 \<and> (isLoading sk \<longleftrightarrow> inflight sk \<noteq> [])"
      by (auto simp: loading_matches_inflight_def split: if_splits)
    with sk show ?thesis by blast
  qed
  then show ?thesis
    by (simp add: inflight_handleSend_call messages_handleSend_call)
qed

theorem C1_no_guard_in_handleSend_witness:
  "\<not> isLoading fresh_session \<and> inflight fresh_session = []
   \<and> sends_only_when_idle fresh_session
        [Send (render fresh_session) ''hi'' Null 100 ''t0'',
         Settle 0 (Fulfilled ''hello'') 180 ''t1'',
         Send (render (fresh_session\<lparr>messages :=
                [\<lparr>m_id = 100, m_text = ''hi'', m_sender = user, m_timestamp = ''t0'',
                   m_image = None, m_isError = None\<rparr>,
                 \<lparr>m_id = 181, m_text = ''hello'', m_sender = ai, m_timestamp = ''t1'',
                   m_image = None, m_isError = None\<rparr>]\<rparr>))
           ''again'' Null 200 ''t2'']
   \<and> map_option (length \<circ> inflight)
        (run fresh_session
          [Send (render fresh_session) ''hi'' Null 100 ''t0'',
         Settle 0 (Fulfilled ''hello'') 180 ''t1'',
         Send (render (fresh_session\<lparr>messages :=
                [\<lparr>m_id = 100, m_text = ''hi'', m_sender = user, m_timestamp = ''t0'',
                   m_image = None, m_isError = None\<rparr>,
                 \<lparr>m_id = 181, m_text = ''hello'', m_sender = ai, m_timestamp = ''t1'',
                   m_image = None, m_isError = None\<rparr>]\<rparr>))
           ''again'' Null 200 ''t2'']) = Some 1"
proof -
  let ?es = "[Send (render fresh_session) ''hi'' Null 100 ''t0'',
         Settle 0 (Fulfilled ''hello'') 180 ''t1'',
         Send (render (fresh_session\<lparr>messages :=
                [\<lparr>m_id = 100, m_text = ''hi'', m_sender = user, m_timestamp = ''t0'',
                   m_image = None, m_isError = None\<rparr>,
                 \<lparr>m_id = 181, m_text = ''hello'', m_sender = ai, m_timestamp = ''t1'',
                   m_image = None, m_isError = None\<rparr>]\<rparr>))
           ''again'' Null 200 ''t2'']"
  have a: "\<not> isLoading fresh_session" and b: "inflight fresh_session = []"
    by (simp_all add: fresh_session_def)
  have c: "sends_only_when_idle fresh_session ?es"
    by (simp add: fresh_session_def flags_handleSend_call flags_handleSend_resume
          inflight_handleSend_call)
  obtain s' where r: "run fresh_session ?es = Some s'"
    by (simp add: fresh_session_def inflight_handleSend_call)
  have d: "length (inflight s') = 1"
    using r by (auto simp: fresh_session_def inflight_handleSend_call flags_handleSend_resume
        remove_nth_def)
  from C1_no_guard_in_handleSend [where s = fresh_session and es = ?es and s' = s'] a b c r
  obtain sk where "run fresh_session (take 3 ?es) = Some sk" and "length (inflight sk) \<le> 1"
    by blast
  with r have "length (inflight s') \<le> 1" by simp
  with a b c r d show ?thesis by simp
qed

text \<open>
  A second send made while the first call is still pending is not suppressed: two calls
  are pending after it, and once both have settled the history holds the two user
  messages followed by the two replies.
\<close>

theorem C1_counterexample:
  "isLoading (handleSend_call (render fresh_session) ''first'' Null 100 ''t0'' fresh_session)
   \<and> map_option (length \<circ> inflight)
        (run fresh_session
          [Send (render fresh_session) ''first'' Null 100 ''t0'',
           Send (render (fresh_session\<lparr>messages :=
               [\<lparr>m_id = 100, m_text = ''first'', m_sender = user, m_timestamp = ''t0'',
                  m_image = None, m_isError = None\<rparr>]\<rparr>))
             ''second'' Null 150 ''t1''])
      = Some 2
   \<and> map_option (map m_sender \<circ> messages)
        (run fresh_session
          [Send (render fresh_session) ''first'' Null 100 ''t0'',
           Send (render (fresh_session\<lparr>messages :=
               [\<lparr>m_id = 100, m_text = ''first'', m_sender = user, m_timestamp = ''t0'',
                  m_image = None, m_isError = None\<rparr>]\<rparr>))
             ''second'' Null 150 ''t1'',
           Settle 0 (Fulfilled ''one'') 300 ''t2'', Settle 0 (Fulfilled ''two'') 400 ''t3''])
      = Some [user, user, ai, ai]"
  by (simp add: fresh_session_def flags_handleSend_call inflight_handleSend_call
        messages_handleSend_call messages_handleSend_resume flags_handleSend_resume
        remove_nth_def)

section \<open>Sends issued one after the other\<close>

lemma run_append:
  "run s (es @ fs) = (case run s es of None \<Rightarrow> None | Some s1 \<Rightarrow> run s1 fs)"
  by (induction es arbitrary: s) (auto split: option.splits)

lemma run_exchange:
  assumes "inflight s = []"
  shows "\<exists>s1. run s (exchange_events x) = Some s1
           \<and> messages s1 = messages s @ exchange_messages x \<and> inflight s1 = []"
proof -
  obtain c t img now stamp res now' stamp'
    where x: "x = ((c, t, img, now, stamp), (res, now', stamp'))"
    by (cases x rule: exchange_events.cases) blast
  show ?thesis
    using assms unfolding x
    by (simp add: inflight_handleSend_call messages_handleSend_call
          messages_handleSend_resume flags_handleSend_resume remove_nth_def)
qed

lemma run_sequential:
  "inflight s = [] \<Longrightarrow>
     \<exists>s'. run s (sequential xs) = Some s'
        \<and> messages s' = messages s @ concat (map exchange_messages xs) \<and> inflight s' = []"
proof (induction xs arbitrary: s)
  case Nil
  then show ?case by (simp add: sequential_def)
next
  case (Cons x xs)
  from run_exchange [OF Cons.prems, of x] obtain s1
    where s1: "run s (exchange_events x) = Some s1"
      and m1: "messages s1 = messages s @ exchange_messages x" and i1: "inflight s1 = []"
    by blast
  from Cons.IH [OF i1] obtain s'
    where s': "run s1 (sequential xs) = Some s'"
      and m': "messages s' = messages s1 @ concat (map exchange_messages xs)"
      and i': "inflight s' = []"
    by blast
  have "run s (sequential (x # xs)) = Some s'"
    using s1 s' by (simp add: sequential_def run_append)
  with m1 m' i' show ?case by simp
qed

lemma length_exchange_messages: "length (exchange_messages x) = 2"
  by (cases x rule: exchange_messages.cases) simp

lemma length_concat_exchange:
  "length (concat (map exchange_messages xs)) = 2 * length xs"
  by (induction xs) (simp_all add: length_exchange_messages)

lemma nth_concat_exchange:
  "i < length xs \<Longrightarrow>
     concat (map exchange_messages xs) ! (2 * i) = exchange_messages (xs ! i) ! 0
     \<and> concat (map exchange_messages xs) ! (2 * i + 1) = exchange_messages (xs ! i) ! 1"
proof (induction xs arbitrary: i)
  case Nil
  then show ?case by simp
next
  case (Cons x xs)
  show ?case
  proof (cases i)
    case 0
    then show ?thesis
      by (cases x rule: exchange_messages.cases) simp
  next
    case (Suc j)
    with Cons.prems have j: "j < length xs" by simp
    have "2 * i = length (exchange_messages x) + 2 * j"
      and "2 * i + 1 = length (exchange_messages x) + (2 * j + 1)"
      using Suc by (simp_all add: length_exchange_messages)
    then show ?thesis
      using Cons.IH [OF j] Suc by (simp add: nth_append del: mult_Suc_right)
  qed
qed

lemma sender_reply: "m_sender (reply res now stamp) = ai"
  by (cases "(res, now, stamp)" rule: reply.cases) simp_all


text \<open>
  Claim C2. Take any number of sends, each issued once the gateway call of the previous
  one has settled (with a response or with a failure), started when no call is pending.
  They all go through, and the message list afterwards is the list before followed by
  exactly two messages for each send, in the order of the calls: the user message of
  the send, then the \<open>ai\<close> message of its outcome (error-flagged exactly when the call
  failed). Started from an empty list, the list has twice as many messages as there
  were sends.
\<close>

theorem C2_sequential_sends:
  assumes "inflight s = []"
  shows "\<exists>s'. run s (sequential xs) = Some s'
     \<and> messages s' = messages s @ concat (map exchange_messages xs)
     \<and> length (messages s') = length (messages s) + 2 * length xs
     \<and> (\<forall>i<length xs.
          case xs ! i of ((c, txt, img, now, stamp), (res, now', stamp')) \<Rightarrow>
            messages s' ! (length (messages s) + 2 * i)
              = \<lparr>m_id = now, m_text = txt, m_sender = user, m_timestamp = stamp,
                 m_image = nullish_undefined img, m_isError = None\<rparr>
          \<and> messages s' ! (length (messages s) + 2 * i + 1) = reply res now' stamp'
          \<and> m_sender (reply res now' stamp') = ai
          \<and> m_isError (reply res now' stamp')
              = (case res of Fulfilled r \<Rightarrow> None | Rejected err \<Rightarrow> Some True))"
proof -
  from run_sequential [OF assms, of xs] obtain s'
    where r: "run s (sequential xs) = Some s'"
      and m: "messages s' = messages s @ concat (map exchange_messages xs)"
    by blast
  have l: "length (messages s') = length (messages s) + 2 * length xs"
    by (simp add: m length_concat_exchange)
  have n: "case xs ! i of ((c, txt, img, now, stamp), (res, now', stamp')) \<Rightarrow>
            messages s' ! (length (messages s) + 2 * i)
              = \<lparr>m_id = now, m_text = txt, m_sender = user, m_timestamp = stamp,
                 m_image = nullish_undefined img, m_isError = None\<rparr>
          \<and> messages s' ! (length (messages s) + 2 * i + 1) = reply res now' stamp'
          \<and> m_sender (reply res now' stamp') = ai
          \<and> m_isError (reply res now' stamp')
              = (case res of Fulfilled r \<Rightarrow> None | Rejected err \<Rightarrow> Some True)"
    if i: "i < length xs" for i
  proof -
    obtain c t img now stamp res now' stamp'
      where x: "xs ! i = ((c, t, img, now, stamp), (res, now', stamp'))"
      by (cases "xs ! i" rule: exchange_events.cases) blast
    have e: "m_isError (reply res now' stamp')
              = (case res of Fulfilled r \<Rightarrow> None | Rejected err \<Rightarrow> Some True)"
      by (cases "(res, now', stamp')" rule: reply.cases) simp_all
    have "messages s' ! (length (messages s) + 2 * i) = exchange_messages (xs ! i) ! 0"
      and "messages s' ! (length (messages s) + 2 * i + 1) = exchange_messages (xs ! i) ! 1"
      using nth_concat_exchange [OF i] by (simp_all add: m nth_append add.assoc)
    then show ?thesis
      by (simp add: x sender_reply e)
  qed
  from r m l n show ?thesis by blast
qed

theorem C2_sequential_sends_witness:
  "inflight fresh_session = []
   \<and> map_option messages
        (run fresh_session
          (sequential
            [((render fresh_session, ''hi'', Null, 100, ''t0''),
              (Fulfilled ''hello'', 180, ''t1'')),
             ((render (fresh_session\<lparr>messages :=
                 [\<lparr>m_id = 100, m_text = ''hi'', m_sender = user, m_timestamp = ''t0'',
                    m_image = None, m_isError = None\<rparr>,
                  \<lparr>m_id = 181, m_text = ''hello'', m_sender = ai, m_timestamp = ''t1'',
                    m_image = None, m_isError = None\<rparr>]\<rparr>),
               ''again'', Base64 ''aGk='', 200, ''t2''),
              (Rejected (Error ''HTTP 500''), 350, ''t3''))]))
     = Some
        [\<lparr>m_id = 100, m_text = ''hi'', m_sender = user, m_timestamp = ''t0'',
           m_image = None, m_isError = None\<rparr>,
         \<lparr>m_id = 181, m_text = ''hello'', m_sender = ai, m_timestamp = ''t1'',
           m_image = None, m_isError = None\<rparr>,
         \<lparr>m_id = 200, m_text = ''again'', m_sender = user, m_timestamp = ''t2'',
           m_image = Some ''aGk='', m_isError = None\<rparr>,
         \<lparr>m_id = 351,
           m_text = ''Sorry, I encountered an error. Please try again. (HTTP 500)'',
           m_sender = ai, m_timestamp = ''t3'', m_image = None, m_isError = Some True\<rparr>]"
proof -
  have i: "inflight fresh_session = []" by (simp add: fresh_session_def)
  from C2_sequential_sends [OF i,
      of "[((render fresh_session, ''hi'', Null, 100, ''t0''),
              (Fulfilled ''hello'', 180, ''t1'')),
             ((render (fresh_session\<lparr>messages :=
                 [\<lparr>m_id = 100, m_text = ''hi'', m_sender = user, m_timestamp = ''t0'',
                    m_image = None, m_isError = None\<rparr>,
                  \<lparr>m_id = 181, m_text = ''hello'', m_sender = ai, m_timestamp = ''t1'',
                    m_image = None, m_isError = None\<rparr>]\<rparr>),
               ''again'', Base64 ''aGk='', 200, ''t2''),
              (Rejected (Error ''HTTP 500''), 350, ''t3''))]"]
  show ?thesis
    using i by (auto simp: fresh_session_def)
qed

section \<open>Message ids\<close>

text \<open>
  Claim C5 asks for pairwise different ids. The ids are clock readings: \<open>Date.now()\<close>
  for a user message and \<open>Date.now() + 1\<close> for a reply. When a send is issued one
  millisecond after the previous call has settled, its user message gets the id of the
  previous reply.
\<close>

theorem C5_id_collision:
  "map_option (map m_id \<circ> messages)
     (run fresh_session
       (sequential
         [((render fresh_session, ''hi'', Null, 100, ''t0''),
           (Fulfilled ''hello'', 100, ''t0'')),
          ((render (fresh_session\<lparr>messages :=
              [\<lparr>m_id = 100, m_text = ''hi'', m_sender = user, m_timestamp = ''t0'',
                 m_image = None, m_isError = None\<rparr>,
               \<lparr>m_id = 101, m_text = ''hello'', m_sender = ai, m_timestamp = ''t0'',
                 m_image = None, m_isError = None\<rparr>]\<rparr>),
            ''again'', Null, 101, ''t1''),
           (Fulfilled ''sure'', 250, ''t2''))]))
     = Some [100, 101, 101, 251]
   \<and> \<not> distinct [100, 101, 101, 251 :: int]"
  by (simp add: sequential_def fresh_session_def inflight_handleSend_call
        messages_handleSend_call messages_handleSend_resume remove_nth_def)

end
